theory Spec2Isabelle
  imports Main "HOL-Library.Char_ord" "HOL-Library.List_Lexorder" "HOL-Library.Multiset"
begin

section \<open>String helpers of android-base used by update\_verifier.cpp\<close>

text \<open>
  Strings are byte lists. \<open>std::string\<close> compares bytes as unsigned values and a proper
  prefix is smaller, which is the order of \<open>Char_ord\<close> with \<open>List_Lexorder\<close>.
\<close>

definition StartsWith :: "string \<Rightarrow> string \<Rightarrow> bool" where
  "StartsWith s prefix = (take (length prefix) s = prefix)"

definition EndsWith :: "string \<Rightarrow> string \<Rightarrow> bool" where
  "EndsWith s suffix =
     (length suffix \<le> length s \<and> drop (length s - length suffix) s = suffix)"

text \<open>\<open>isspace\<close> in the C locale: space, \<open>\t \n \v \f \r\<close>.\<close>

definition isspace :: "char \<Rightarrow> bool" where
  "isspace c = (c = CHR '' '' \<or> c = CHR 0x09 \<or> c = CHR 0x0A \<or> c = CHR 0x0B
                \<or> c = CHR 0x0C \<or> c = CHR 0x0D)"

text \<open>\<open>android::base::Trim\<close>: drop the white space at both ends.\<close>

definition Trim :: "string \<Rightarrow> string" where
  "Trim s = rev (dropWhile isspace (rev (dropWhile isspace s)))"

text \<open>
  \<open>android::base::Split(s, "\n")\<close> with a one-character delimiter: the pieces between the
  delimiters, empty pieces kept; the empty string gives one empty piece.
\<close>

fun base_Split :: "string \<Rightarrow> char \<Rightarrow> string list" where
  "base_Split [] d = [ [] ]"
| "base_Split (c # cs) d =
     (if c = d then [] # base_Split cs d
      else (case base_Split cs d of
              [] \<Rightarrow> [ [c] ]
            | p # ps \<Rightarrow> (c # p) # ps))"

text \<open>\<open>tolower\<close> in the C locale, as \<open>strncasecmp\<close> applies it.\<close>

definition tolower :: "char \<Rightarrow> char" where
  "tolower c =
     (if CHR ''A'' \<le> c \<and> c \<le> CHR ''Z'' then char_of (of_char c + (32::nat)) else c)"

text \<open>
  \<open>android::base::EqualsIgnoreCase\<close>: equal sizes and \<open>strncasecmp\<close> over that size is 0.
  The right-hand sides used here are literals without a NUL byte, so the comparison
  runs over every position.
\<close>

definition EqualsIgnoreCase :: "string \<Rightarrow> string \<Rightarrow> bool" where
  "EqualsIgnoreCase lhs rhs =
     (length lhs = length rhs \<and> map tolower lhs = map tolower rhs)"

section \<open>RangeSet\<close>

text \<open>
  A \<open>Range\<close> is a half-open interval of block numbers, a \<open>RangeSet\<close> the sequence of
  ranges in stored order (what iterating over it yields).
\<close>

type_synonym Range = "nat \<times> nat"
type_synonym RangeSet = "Range list"

definition range_blocks :: "Range \<Rightarrow> nat list" where
  "range_blocks r = [fst r ..< snd r]"

definition blocks_of :: "RangeSet \<Rightarrow> nat list" where
  "blocks_of rs = concat (map range_blocks rs)"

definition blocks :: "RangeSet \<Rightarrow> nat" where
  "blocks rs = sum_list (map (\<lambda>r. snd r - fst r) rs)"

text \<open>
  The invariant the data model gives a RangeSet: every pair has \<open>start < end\<close>, the pairs
  are sorted and do not overlap.
\<close>

definition RangeSet_inv :: "RangeSet \<Rightarrow> bool" where
  "RangeSet_inv rs =
     (list_all (\<lambda>r. fst r < snd r) rs \<and> sorted_wrt (\<lambda>a b. snd a \<le> fst b) rs)"

text \<open>
  Modelled from the spec: \<open>RangeSet::Parse\<close> (otautil's rangeset is not among the source
  files). The text is a count followed by exactly that many comma-separated non-negative
  integers; the count is even; each pair has \<open>start < end\<close>; the count 0 gives the empty
  RangeSet; anything else is a parse error (\<open>None\<close>).
\<close>

definition digit_val :: "char \<Rightarrow> nat option" where
  "digit_val c =
     (if CHR ''0'' \<le> c \<and> c \<le> CHR ''9'' then Some (of_char c - 48) else None)"

fun parse_digits :: "nat \<Rightarrow> string \<Rightarrow> nat option" where
  "parse_digits acc [] = Some acc"
| "parse_digits acc (c # cs) =
     (case digit_val c of
        None \<Rightarrow> None
      | Some d \<Rightarrow> parse_digits (10 * acc + d) cs)"

definition parse_uint :: "string \<Rightarrow> nat option" where
  "parse_uint s = (if s = [] then None else parse_digits 0 s)"

fun pair_up :: "nat list \<Rightarrow> RangeSet option" where
  "pair_up [] = Some []"
| "pair_up [x] = None"
| "pair_up (s # e # xs) =
     (if e \<le> s then None
      else (case pair_up xs of None \<Rightarrow> None | Some rs \<Rightarrow> Some ((s, e) # rs)))"

definition RangeSet_Parse :: "string \<Rightarrow> RangeSet option" where
  "RangeSet_Parse range_text =
     (case map parse_uint (base_Split range_text (CHR '','')) of
        [] \<Rightarrow> None
      | None # _ \<Rightarrow> None
      | Some num # pieces \<Rightarrow>
          if odd num \<or> length pieces \<noteq> num \<or> None \<in> set pieces then None
          else pair_up (map the pieces))"

text \<open>
  Modelled from the spec: \<open>RangeSet::Split\<close> (otautil's rangeset is not among the source
  files). The pairs, not single blocks, are distributed over \<open>groups\<close> output sets by a
  greedy contiguous partition of the pair sequence: a group takes pairs in order until
  it holds the target number of blocks (the total divided by \<open>groups\<close>, rounded up), and
  the last group holds the remainder. Pairs are never reordered.
\<close>

fun take_group :: "nat \<Rightarrow> Range list \<Rightarrow> Range list \<times> Range list" where
  "take_group needed [] = ([], [])"
| "take_group needed (r # rs) =
     (if needed = 0 then ([], r # rs)
      else (case take_group (needed - (snd r - fst r)) rs of
              (g, rest) \<Rightarrow> (r # g, rest)))"

fun split_groups :: "nat \<Rightarrow> nat \<Rightarrow> Range list \<Rightarrow> RangeSet list" where
  "split_groups 0 target rs = []"
| "split_groups (Suc 0) target rs = [rs]"
| "split_groups (Suc (Suc k)) target rs =
     (case take_group target rs of
        (g, rest) \<Rightarrow> g # split_groups (Suc k) target rest)"

definition RangeSet_Split :: "RangeSet \<Rightarrow> nat \<Rightarrow> RangeSet list" where
  "RangeSet_Split rs groups =
     split_groups groups ((blocks rs + groups - 1) div groups) rs"

section \<open>The environment of a run\<close>

text \<open>
  Everything update\_verifier reads from outside: the boot control HAL, the system
  property, the file system, the block devices, the protobuf decoder, and the two
  RangeSet operations, which the verifier only calls.
\<close>

datatype BoolResult = FALSE | TRUE | INVALID_SLOT

datatype file_state = OpenFails | ReadFails | Content string

record device =
  dev_lseek64 :: "nat \<Rightarrow> bool"
  dev_ReadFully :: "nat \<Rightarrow> nat \<Rightarrow> bool"

record env =
  getService :: bool
  getCurrentSlot :: nat
  isSlotMarkedSuccessful :: "nat \<Rightarrow> BoolResult"
  markBootSuccessful :: bool
  android_reboot :: bool
  ro_boot_veritymode :: string
  access_R_OK :: "string \<Rightarrow> bool"
  files :: "string \<Rightarrow> file_state"
  scandir :: "string \<Rightarrow> string list option"
  open_device :: "string \<Rightarrow> device option"
  hardware_concurrency :: nat
  ParseFromString :: "string \<Rightarrow> (string \<times> string) list option"
  rs_Parse :: "string \<Rightarrow> RangeSet option"
  rs_Split :: "RangeSet \<Rightarrow> nat \<Rightarrow> RangeSet list"

text \<open>\<open>android::base::ReadFileToString\<close>: the content, or failure.\<close>

definition ReadFileToString :: "env \<Rightarrow> string \<Rightarrow> string option" where
  "ReadFileToString e path = (case files e path of Content c \<Rightarrow> Some c | _ \<Rightarrow> None)"

section \<open>std::map with emplace\<close>

text \<open>
  A \<open>std::map<std::string, T>\<close> is the list of its entries in key order, which is the
  order a range-for visits them. \<open>emplace\<close> inserts only when the key is absent.
\<close>

type_synonym 'v strmap = "(string \<times> 'v) list"

fun emplace :: "string \<Rightarrow> 'v \<Rightarrow> 'v strmap \<Rightarrow> 'v strmap" where
  "emplace k v [] = [(k, v)]"
| "emplace k v ((k', v') # m) =
     (if k = k' then (k', v') # m
      else if k < k' then (k, v) # (k', v') # m
      else (k', v') # emplace k v m)"

section \<open>FindDmPartitions\<close>

definition dm_name_filter :: "string \<Rightarrow> bool" where
  "dm_name_filter d_name = StartsWith d_name ''dm-''"

definition dm_block_name :: "string \<Rightarrow> string" where
  "dm_block_name content =
     (let name = Trim content in if name = ''vroot'' then ''system'' else name)"

definition DM_PATH_PREFIX :: string where
  "DM_PATH_PREFIX = ''/sys/block/''"

definition DM_PATH_SUFFIX :: string where
  "DM_PATH_SUFFIX = ''/dm/name''"

definition DEV_PATH :: string where
  "DEV_PATH = ''/dev/block/''"

text \<open>
  The body of \<open>while (n--)\<close>, given the entries in the order the loop visits them
  (from the last of the sorted list to the first).
\<close>

fun dm_loop :: "env \<Rightarrow> string list \<Rightarrow> string strmap \<Rightarrow> string strmap" where
  "dm_loop e [] dm_block_devices = dm_block_devices"
| "dm_loop e (d_name # rest) dm_block_devices =
     (case ReadFileToString e (DM_PATH_PREFIX @ d_name @ DM_PATH_SUFFIX) of
        None \<Rightarrow> dm_loop e rest dm_block_devices
      | Some content \<Rightarrow>
          dm_loop e rest
            (emplace (dm_block_name content) (DEV_PATH @ d_name) dm_block_devices))"

text \<open>
  \<open>scandir\<close> with \<open>dm_name_filter\<close> and \<open>alphasort\<close>: \<open>None\<close> is the return value -1,
  otherwise the filtered entries sorted by name.
\<close>

definition scandir_dm :: "env \<Rightarrow> string list option" where
  "scandir_dm e =
     (case scandir e DM_PATH_PREFIX of
        None \<Rightarrow> None
      | Some entries \<Rightarrow> Some (sort (filter dm_name_filter entries)))"

definition FindDmPartitions :: "env \<Rightarrow> string strmap" where
  "FindDmPartitions e =
     (case scandir_dm e of
        None \<Rightarrow> []
      | Some namelist \<Rightarrow>
          if length namelist = 0 then [] else dm_loop e (rev namelist) [])"

section \<open>ReadBlocks\<close>

definition kBlockSize :: nat where
  "kBlockSize = 4096"

definition size_max :: nat where
  "size_max = 2 ^ 64"

text \<open>
  The \<open>while (remain > 0)\<close> loop of one range: \<open>pos\<close> is the file offset, which every
  successful read advances.
\<close>

function read_chunks :: "device \<Rightarrow> nat \<Rightarrow> nat \<Rightarrow> bool" where
  "read_chunks d pos remain =
     (if remain > 0 then
        (let to_read = min remain (1024 * kBlockSize) in
         if \<not> dev_ReadFully d pos to_read then False
         else read_chunks d (pos + to_read) (remain - to_read))
      else True)"
  by pat_completeness auto
termination
  by (relation "measure (\<lambda>(d, pos, remain). remain)") (auto simp: kBlockSize_def)

text \<open>
  The range loop of a unit of work. \<open>size_t\<close> is taken as 64 bits wide and its
  arithmetic wraps.
\<close>

fun read_ranges :: "device \<Rightarrow> Range list \<Rightarrow> bool" where
  "read_ranges d [] = True"
| "read_ranges d ((range_start, range_end) # rest) =
     (if \<not> dev_lseek64 d ((range_start * kBlockSize) mod size_max) then False
      else if \<not> read_chunks d ((range_start * kBlockSize) mod size_max)
                  ((((range_end + size_max - range_start) mod size_max) * kBlockSize)
                     mod size_max)
        then False
      else read_ranges d rest)"

definition thread_func :: "env \<Rightarrow> string \<Rightarrow> RangeSet \<Rightarrow> bool" where
  "thread_func e dm_block_device grp =
     (case open_device e dm_block_device of
        None \<Rightarrow> False
      | Some d \<Rightarrow> read_ranges d grp)"

definition thread_num :: "env \<Rightarrow> nat" where
  "thread_num e = (if hardware_concurrency e \<noteq> 0 then hardware_concurrency e else 4)"

text \<open>The first loop: one future per group, holding the group's result.\<close>

definition launch_threads :: "env \<Rightarrow> string \<Rightarrow> RangeSet list \<Rightarrow> bool list" where
  "launch_threads e dm_block_device groups =
     map (thread_func e dm_block_device) groups"

text \<open>The second loop: \<open>ret = t.get() && ret\<close> for every future.\<close>

fun join_threads :: "bool list \<Rightarrow> bool \<Rightarrow> bool" where
  "join_threads [] ret = ret"
| "join_threads (t # threads) ret = join_threads threads (t \<and> ret)"

definition ReadBlocks :: "env \<Rightarrow> string \<Rightarrow> string \<Rightarrow> RangeSet \<Rightarrow> bool" where
  "ReadBlocks e partition_name dm_block_device ranges =
     (let groups = rs_Split e ranges (thread_num e);
          threads = launch_threads e dm_block_device groups
      in join_threads threads True)"

section \<open>VerifyPartitions\<close>

fun verify_loop :: "env \<Rightarrow> string strmap \<Rightarrow> RangeSet strmap \<Rightarrow> bool" where
  "verify_loop e dm_block_devices [] = True"
| "verify_loop e dm_block_devices ((partition_name, ranges) # rest) =
     (case map_of dm_block_devices partition_name of
        None \<Rightarrow> False
      | Some dm_block_device \<Rightarrow>
          if \<not> ReadBlocks e partition_name dm_block_device ranges then False
          else verify_loop e dm_block_devices rest)"

definition VerifyPartitions :: "env \<Rightarrow> RangeSet strmap \<Rightarrow> bool" where
  "VerifyPartitions e partition_map =
     (let dm_block_devices = FindDmPartitions e in
      if dm_block_devices = [] then False
      else verify_loop e dm_block_devices partition_map)"

section \<open>ParseCareMap\<close>

text \<open>
  Every \<open>return false\<close> of the parser comes with its own warning; the model returns
  which one, next to the partition map as the failed call leaves it.
\<close>

datatype care_map_warning =
    FailedToOpen
  | FailedToRead
  | UnexpectedEmptyCareMap
  | InvalidLines nat
  | FoundLegacyCareMap
  | ErrorParsingRangeSet string
  | FailedToParseProtobuf
  | UnexpectedEmptyPartitionName
  | UnexpectedBlockRanges string
  | NoPartitionToVerify

datatype parse_result = ParseOk | ParseFailed care_map_warning

fun plain_text_loop ::
  "env \<Rightarrow> string list \<Rightarrow> RangeSet strmap \<Rightarrow> parse_result \<times> RangeSet strmap" where
  "plain_text_loop e (partition_name # range_str # rest) partition_map =
     (if StartsWith partition_name ''/dev/block/''
        then (ParseFailed FoundLegacyCareMap, partition_map)
      else (case rs_Parse e range_str of
              None \<Rightarrow> (ParseFailed (ErrorParsingRangeSet range_str), partition_map)
            | Some ranges \<Rightarrow>
                plain_text_loop e rest (emplace partition_name ranges partition_map)))"
| "plain_text_loop e lines partition_map = (ParseOk, partition_map)"

definition ParseCareMapPlainText ::
  "env \<Rightarrow> string \<Rightarrow> RangeSet strmap \<Rightarrow> parse_result \<times> RangeSet strmap" where
  "ParseCareMapPlainText e content partition_map =
     (let lines = base_Split (Trim content) (CHR 0x0A) in
      if length lines \<noteq> 2 \<and> length lines \<noteq> 4 \<and> length lines \<noteq> 6
        then (ParseFailed (InvalidLines (length lines)), partition_map)
      else plain_text_loop e lines partition_map)"

fun protobuf_loop ::
  "env \<Rightarrow> (string \<times> string) list \<Rightarrow> RangeSet strmap \<Rightarrow> parse_result \<times> RangeSet strmap"
  where
  "protobuf_loop e [] partition_map = (ParseOk, partition_map)"
| "protobuf_loop e ((name, ranges_str) # rest) partition_map =
     (if name = [] then (ParseFailed UnexpectedEmptyPartitionName, partition_map)
      else if ranges_str = [] then (ParseFailed (UnexpectedBlockRanges name), partition_map)
      else (case rs_Parse e ranges_str of
              None \<Rightarrow> (ParseFailed (ErrorParsingRangeSet ranges_str), partition_map)
            | Some ranges \<Rightarrow> protobuf_loop e rest (emplace name ranges partition_map)))"

definition resolve_care_map_name :: "env \<Rightarrow> string \<Rightarrow> string" where
  "resolve_care_map_name e file_name =
     (if file_name = [] then
        (if \<not> access_R_OK e (''/data/ota_package/care_map'' @ ''.pb'')
           then ''/data/ota_package/care_map'' @ ''.txt''
         else ''/data/ota_package/care_map'' @ ''.pb'')
      else file_name)"

text \<open>
  \<open>ParseCareMap\<close> clears the partition map first, so it does not depend on the map
  the verifier held before.
\<close>

definition ParseCareMap :: "env \<Rightarrow> string \<Rightarrow> parse_result \<times> RangeSet strmap" where
  "ParseCareMap e file_name =
     (let care_map_name = resolve_care_map_name e file_name in
      case files e care_map_name of
        OpenFails \<Rightarrow> (ParseFailed FailedToOpen, [])
      | ReadFails \<Rightarrow> (ParseFailed FailedToRead, [])
      | Content file_content \<Rightarrow>
          if file_content = [] then (ParseFailed UnexpectedEmptyCareMap, [])
          else if EndsWith care_map_name ''.txt''
            then ParseCareMapPlainText e file_content []
          else (case ParseFromString e file_content of
                  None \<Rightarrow> (ParseFailed FailedToParseProtobuf, [])
                | Some partitions \<Rightarrow>
                    (case protobuf_loop e partitions [] of
                       (ParseFailed w, partition_map) \<Rightarrow> (ParseFailed w, partition_map)
                     | (ParseOk, partition_map) \<Rightarrow>
                         if partition_map = []
                           then (ParseFailed NoPartitionToVerify, partition_map)
                         else (ParseOk, partition_map))))"

section \<open>The orchestrator\<close>

text \<open>
  A run is observed through the calls it makes, in order, and through how it ends:
  with an exit status, or never, when the reboot was accepted and the process pauses.
\<close>

datatype event =
    CallParseCareMap
  | CallVerifyPartitions
  | CallMarkBootSuccessful
  | CallAndroidReboot

datatype outcome = Exit int | PausesForever

type_synonym run = "event list \<times> outcome"

definition after :: "event list \<Rightarrow> run \<Rightarrow> run" where
  "after evs r = (evs @ fst r, snd r)"

definition reboot_device :: "env \<Rightarrow> run" where
  "reboot_device e =
     (if \<not> android_reboot e then ([CallAndroidReboot], Exit (- 1))
      else ([CallAndroidReboot], PausesForever))"

text \<open>From \<open>CommandResult cr\<close> to the end of the branch.\<close>

definition mark_successful :: "env \<Rightarrow> run" where
  "mark_successful e =
     (if \<not> markBootSuccessful e then after [CallMarkBootSuccessful] (reboot_device e)
      else ([CallMarkBootSuccessful], Exit 0))"

text \<open>
  From \<open>if (!skip_verification)\<close> on. \<open>ParseCareMap\<close> is called without an argument,
  its file name is the empty default.
\<close>

definition verify_and_mark :: "env \<Rightarrow> bool \<Rightarrow> run" where
  "verify_and_mark e skip_verification =
     (if \<not> skip_verification then
        (case ParseCareMap e [] of
           (ParseFailed w, partition_map) \<Rightarrow> after [CallParseCareMap] (mark_successful e)
         | (ParseOk, partition_map) \<Rightarrow>
             if \<not> VerifyPartitions e partition_map
               then after [CallParseCareMap, CallVerifyPartitions] (reboot_device e)
             else after [CallParseCareMap, CallVerifyPartitions] (mark_successful e))
      else mark_successful e)"

definition update_verifier :: "env \<Rightarrow> run" where
  "update_verifier e =
     (if \<not> getService e then reboot_device e
      else
        (let current_slot = getCurrentSlot e;
             is_successful = isSlotMarkedSuccessful e current_slot in
         if is_successful = FALSE then
           (let verity_mode = ro_boot_veritymode e in
            if verity_mode = [] then verify_and_mark e True
            else if EqualsIgnoreCase verity_mode ''eio'' then verify_and_mark e False
            else if EqualsIgnoreCase verity_mode ''disabled'' then verify_and_mark e True
            else if verity_mode \<noteq> ''enforcing'' then reboot_device e
            else verify_and_mark e False)
         else ([], Exit 0)))"

section \<open>Notions used to state the properties\<close>

text \<open>
  The name an entry of \<open>/sys/block\<close> contributes to the mapping: the trimmed content of
  its \<open>dm/name\<close> file with \<open>vroot\<close> renamed, when the file can be read.
\<close>

definition dm_entry_name :: "env \<Rightarrow> string \<Rightarrow> string option" where
  "dm_entry_name e d_name =
     map_option dm_block_name (ReadFileToString e (DM_PATH_PREFIX @ d_name @ DM_PATH_SUFFIX))"

definition keys_sorted :: "'v strmap \<Rightarrow> bool" where
  "keys_sorted m = sorted_wrt (<) (map fst m)"

section \<open>Example environments\<close>

definition good_device :: device where
  "good_device = \<lparr> dev_lseek64 = (\<lambda>off. True), dev_ReadFully = (\<lambda>pos n. True) \<rparr>"

definition bad_device :: device where
  "bad_device = \<lparr> dev_lseek64 = (\<lambda>off. True), dev_ReadFully = (\<lambda>pos n. False) \<rparr>"

text \<open>
  A device with one verity device \<open>dm-0\<close> named \<open>vroot\<close>, a plain-text care map with
  the given content and no protobuf care map.
\<close>

definition example_env :: "BoolResult \<Rightarrow> string \<Rightarrow> string \<Rightarrow> device \<Rightarrow> env" where
  "example_env marked vm care_map dev =
   \<lparr> getService = True, getCurrentSlot = 0, isSlotMarkedSuccessful = (\<lambda>slot. marked),
     markBootSuccessful = True, android_reboot = True, ro_boot_veritymode = vm,
     access_R_OK = (\<lambda>p. False),
     files = (\<lambda>p. if p = ''/data/ota_package/care_map.txt'' then Content care_map
                  else if p = ''/sys/block/dm-0/dm/name'' then Content ''vroot\<newline>''
                  else OpenFails),
     scandir = (\<lambda>p. if p = ''/sys/block/'' then Some [''loop0'', ''dm-0''] else None),
     open_device = (\<lambda>p. if p = ''/dev/block/dm-0'' then Some dev else None),
     hardware_concurrency = 0,
     ParseFromString = (\<lambda>s. None),
     rs_Parse = RangeSet_Parse,
     rs_Split = RangeSet_Split \<rparr>"

text \<open>Two verity devices: \<open>dm-0\<close> is named \<open>system\<close> and \<open>dm-1\<close> is named \<open>vroot\<close>.\<close>

definition two_dm_env :: env where
  "two_dm_env =
   \<lparr> getService = True, getCurrentSlot = 0, isSlotMarkedSuccessful = (\<lambda>slot. FALSE),
     markBootSuccessful = True, android_reboot = True, ro_boot_veritymode = ''enforcing'',
     access_R_OK = (\<lambda>p. False),
     files = (\<lambda>p. if p = ''/sys/block/dm-0/dm/name'' then Content ''system\<newline>''
                  else if p = ''/sys/block/dm-1/dm/name'' then Content ''vroot\<newline>''
                  else OpenFails),
     scandir = (\<lambda>p. if p = ''/sys/block/'' then Some [''dm-0'', ''dm-1''] else None),
     open_device = (\<lambda>p. None),
     hardware_concurrency = 0,
     ParseFromString = (\<lambda>s. None),
     rs_Parse = RangeSet_Parse,
     rs_Split = RangeSet_Split \<rparr>"

section \<open>Facts about the example environments\<close>

lemma example_env_sel:
  "getService (example_env m vm cm dev)"
  "isSlotMarkedSuccessful (example_env m vm cm dev) slot = m"
  "ro_boot_veritymode (example_env m vm cm dev) = vm"
  "markBootSuccessful (example_env m vm cm dev)"
  "android_reboot (example_env m vm cm dev)"
  "thread_num (example_env m vm cm dev) = 4"
  "rs_Split (example_env m vm cm dev) = RangeSet_Split"
  "rs_Parse (example_env m vm cm dev) = RangeSet_Parse"
  by (simp_all add: example_env_def thread_num_def)

lemma example_ParseCareMap:
  "ParseCareMap (example_env m vm ''system\<newline>2,0,2\<newline>'' dev) []
     = (ParseOk, [(''system'', [(0, 2)])])"
  by code_simp

lemma example_ParseCareMap_legacy:
  "ParseCareMap (example_env m vm ''/dev/block/system\<newline>2,0,2\<newline>'' dev) []
     = (ParseFailed FoundLegacyCareMap, [])"
  by code_simp

lemma example_FindDmPartitions:
  "FindDmPartitions (example_env m vm cm dev) = [(''system'', ''/dev/block/dm-0'')]"
  by code_simp

lemma example_Split: "RangeSet_Split [(0, 2)] 4 = [ [(0, 2)], [], [], [] ]"
  by code_simp

lemma example_thread_bad:
  "\<not> thread_func (example_env m vm cm bad_device) ''/dev/block/dm-0'' [(0, 2)]"
  by (simp add: example_env_def thread_func_def bad_device_def kBlockSize_def size_max_def)

lemma example_thread_good:
  "thread_func (example_env m vm cm good_device) ''/dev/block/dm-0'' [(0, 2)]"
  by (simp add: example_env_def thread_func_def good_device_def kBlockSize_def size_max_def)

lemma example_thread_empty: "thread_func (example_env m vm cm dev) ''/dev/block/dm-0'' []"
  by (simp add: example_env_def thread_func_def)

lemma example_verify_bad:
  "\<not> VerifyPartitions (example_env m vm cm bad_device) [(''system'', [(0, 2)])]"
  by (simp add: VerifyPartitions_def example_FindDmPartitions ReadBlocks_def example_env_sel
      example_Split launch_threads_def example_thread_bad)

lemma example_verify_good:
  "VerifyPartitions (example_env m vm cm good_device) [(''system'', [(0, 2)])]"
  by (simp add: VerifyPartitions_def example_FindDmPartitions ReadBlocks_def example_env_sel
      example_Split launch_threads_def example_thread_good example_thread_empty)

section \<open>The orchestrator\<close>

lemma enforcing_not_eio: "\<not> EqualsIgnoreCase ''enforcing'' ''eio''"
  by (simp add: EqualsIgnoreCase_def)

lemma enforcing_not_disabled: "\<not> EqualsIgnoreCase ''enforcing'' ''disabled''"
  by (simp add: EqualsIgnoreCase_def)

lemma EIO_eio: "EqualsIgnoreCase ''EIO'' ''eio''"
  by code_simp

lemma reboot_device_trace: "fst (reboot_device e) = [CallAndroidReboot]"
  by (simp add: reboot_device_def)

lemma mark_successful_trace:
  "fst (mark_successful e) =
     CallMarkBootSuccessful # (if markBootSuccessful e then [] else [CallAndroidReboot])"
  by (simp add: mark_successful_def after_def reboot_device_trace)

lemma mark_successful_exit: "markBootSuccessful e \<Longrightarrow> snd (mark_successful e) = Exit 0"
  by (simp add: mark_successful_def)

text \<open>
  C1: in a run with the bootctrl module present, the slot not yet marked successful, the
  verity mode \<open>enforcing\<close>, a care map that parses and \<open>VerifyPartitions\<close> returning
  failure, the calls made are the parse, the verification and the reboot request:
  a reboot is requested and \<open>markBootSuccessful\<close> is never called.
\<close>

theorem enforcing_verify_failure_reboots:
  assumes "getService e"
    and "isSlotMarkedSuccessful e (getCurrentSlot e) = FALSE"
    and "ro_boot_veritymode e = ''enforcing''"
    and "ParseCareMap e [] = (ParseOk, partition_map)"
    and "\<not> VerifyPartitions e partition_map"
  shows "fst (update_verifier e) = [CallParseCareMap, CallVerifyPartitions, CallAndroidReboot]
         \<and> CallAndroidReboot \<in> set (fst (update_verifier e))
         \<and> CallMarkBootSuccessful \<notin> set (fst (update_verifier e))"
proof -
  have "update_verifier e = verify_and_mark e False"
    using assms(1-3) by (simp add: update_verifier_def enforcing_not_eio enforcing_not_disabled)
  also have "\<dots> = after [CallParseCareMap, CallVerifyPartitions] (reboot_device e)"
    using assms(4,5) by (simp add: verify_and_mark_def)
  finally have "fst (update_verifier e)
      = [CallParseCareMap, CallVerifyPartitions, CallAndroidReboot]"
    by (simp add: after_def reboot_device_trace)
  then show ?thesis by simp
qed

theorem enforcing_verify_failure_reboots_witness:
  "fst (update_verifier
          (example_env FALSE ''enforcing'' ''system\<newline>2,0,2\<newline>'' bad_device))
     = [CallParseCareMap, CallVerifyPartitions, CallAndroidReboot]
   \<and> CallAndroidReboot \<in> set (fst (update_verifier
          (example_env FALSE ''enforcing'' ''system\<newline>2,0,2\<newline>'' bad_device)))
   \<and> CallMarkBootSuccessful \<notin> set (fst (update_verifier
          (example_env FALSE ''enforcing'' ''system\<newline>2,0,2\<newline>'' bad_device)))"
  by (rule enforcing_verify_failure_reboots [where partition_map = "[(''system'', [(0, 2)])]"])
     (simp_all only: example_env_sel example_ParseCareMap example_verify_bad not_False_eq_True)

text \<open>
  C2: when the run reaches the care-map parser (module present, slot not marked, mode
  \<open>enforcing\<close> or \<open>eio\<close> in any letter case) and the parser fails, whatever the warning
  it fails with, \<open>VerifyPartitions\<close> is not called and \<open>markBootSuccessful\<close> is; a reboot
  is requested exactly when marking fails, so never because of the parse failure.
\<close>

theorem parse_failure_skips_and_marks:
  assumes "getService e"
    and "isSlotMarkedSuccessful e (getCurrentSlot e) = FALSE"
    and "ro_boot_veritymode e = ''enforcing'' \<or> EqualsIgnoreCase (ro_boot_veritymode e) ''eio''"
    and "fst (ParseCareMap e []) = ParseFailed w"
  shows "CallVerifyPartitions \<notin> set (fst (update_verifier e))
         \<and> CallMarkBootSuccessful \<in> set (fst (update_verifier e))
         \<and> (CallAndroidReboot \<in> set (fst (update_verifier e)) \<longleftrightarrow> \<not> markBootSuccessful e)
         \<and> (markBootSuccessful e \<longrightarrow> snd (update_verifier e) = Exit 0)
         \<and> fst (update_verifier e) =
              [CallParseCareMap, CallMarkBootSuccessful]
              @ (if markBootSuccessful e then [] else [CallAndroidReboot])"
proof -
  have "ro_boot_veritymode e \<noteq> []"
    using assms(3) by (auto simp add: EqualsIgnoreCase_def)
  then have "update_verifier e = verify_and_mark e False"
    using assms(1-3)
    by (auto simp add: update_verifier_def enforcing_not_eio enforcing_not_disabled)
  also have "\<dots> = after [CallParseCareMap] (mark_successful e)"
    using assms(4) by (cases "ParseCareMap e []") (simp add: verify_and_mark_def)
  finally have run: "update_verifier e = after [CallParseCareMap] (mark_successful e)" .
  have "fst (update_verifier e) =
      [CallParseCareMap, CallMarkBootSuccessful]
      @ (if markBootSuccessful e then [] else [CallAndroidReboot])"
    by (simp add: run after_def mark_successful_trace)
  moreover have "markBootSuccessful e \<longrightarrow> snd (update_verifier e) = Exit 0"
    by (simp add: run after_def mark_successful_exit)
  ultimately show ?thesis by simp
qed

theorem parse_failure_skips_and_marks_witness:
  "fst (ParseCareMap
          (example_env FALSE ''enforcing'' ''/dev/block/system\<newline>2,0,2\<newline>'' good_device) [])
     = ParseFailed FoundLegacyCareMap
   \<and> fst (update_verifier
          (example_env FALSE ''enforcing'' ''/dev/block/system\<newline>2,0,2\<newline>'' good_device))
     = [CallParseCareMap, CallMarkBootSuccessful]
   \<and> snd (update_verifier
          (example_env FALSE ''enforcing'' ''/dev/block/system\<newline>2,0,2\<newline>'' good_device))
     = Exit 0"
proof -
  let ?e = "example_env FALSE ''enforcing'' ''/dev/block/system\<newline>2,0,2\<newline>'' good_device"
  have p: "fst (ParseCareMap ?e []) = ParseFailed FoundLegacyCareMap"
    by (simp add: example_ParseCareMap_legacy)
  have "fst (update_verifier ?e) =
      [CallParseCareMap, CallMarkBootSuccessful]
      @ (if markBootSuccessful ?e then [] else [CallAndroidReboot])
    \<and> (markBootSuccessful ?e \<longrightarrow> snd (update_verifier ?e) = Exit 0)"
    using parse_failure_skips_and_marks [of ?e FoundLegacyCareMap] p
    by (simp only: example_env_sel simp_thms)
  then show ?thesis using p by (simp add: example_env_sel)
qed

text \<open>
  C7 (as amended): with the module present and the slot not marked, a verity mode that is
  not empty, does not equal \<open>eio\<close> or \<open>disabled\<close> when letter case is ignored, and is
  not exactly \<open>enforcing\<close> makes the run request a reboot at once: the care map is not
  parsed, nothing is verified and \<open>markBootSuccessful\<close> is not called.
\<close>

theorem unexpected_mode_reboots:
  assumes "getService e"
    and "isSlotMarkedSuccessful e (getCurrentSlot e) = FALSE"
    and "ro_boot_veritymode e \<noteq> []"
    and "\<not> EqualsIgnoreCase (ro_boot_veritymode e) ''eio''"
    and "\<not> EqualsIgnoreCase (ro_boot_veritymode e) ''disabled''"
    and "ro_boot_veritymode e \<noteq> ''enforcing''"
  shows "fst (update_verifier e) = [CallAndroidReboot]
         \<and> CallParseCareMap \<notin> set (fst (update_verifier e))
         \<and> CallVerifyPartitions \<notin> set (fst (update_verifier e))
         \<and> CallMarkBootSuccessful \<notin> set (fst (update_verifier e))"
  using assms by (simp add: update_verifier_def reboot_device_trace)

theorem unexpected_mode_reboots_witness:
  "fst (update_verifier
          (example_env FALSE ''logging'' ''system\<newline>2,0,2\<newline>'' good_device))
     = [CallAndroidReboot]"
proof -
  let ?e = "example_env FALSE ''logging'' ''system\<newline>2,0,2\<newline>'' good_device"
  have "\<not> EqualsIgnoreCase (ro_boot_veritymode ?e) ''eio''"
    and "\<not> EqualsIgnoreCase (ro_boot_veritymode ?e) ''disabled''"
    by (simp_all add: example_env_sel EqualsIgnoreCase_def)
  then show ?thesis
    using unexpected_mode_reboots [of ?e] by (simp add: example_env_sel)
qed

text \<open>
  C7 as stated fails: the mode \<open>EIO\<close> is none of the empty string, \<open>disabled\<close>, \<open>eio\<close>
  and \<open>enforcing\<close>, yet the run verifies the partitions, marks the slot and requests
  no reboot, because \<open>eio\<close> and \<open>disabled\<close> are compared without regard to letter case.
\<close>

theorem uppercase_eio_counterexample:
  "ro_boot_veritymode
      (example_env FALSE ''EIO'' ''system\<newline>2,0,2\<newline>'' good_device) \<noteq> []
   \<and> ro_boot_veritymode
      (example_env FALSE ''EIO'' ''system\<newline>2,0,2\<newline>'' good_device) \<noteq> ''disabled''
   \<and> ro_boot_veritymode
      (example_env FALSE ''EIO'' ''system\<newline>2,0,2\<newline>'' good_device) \<noteq> ''eio''
   \<and> ro_boot_veritymode
      (example_env FALSE ''EIO'' ''system\<newline>2,0,2\<newline>'' good_device) \<noteq> ''enforcing''
   \<and> update_verifier (example_env FALSE ''EIO'' ''system\<newline>2,0,2\<newline>'' good_device)
     = ([CallParseCareMap, CallVerifyPartitions, CallMarkBootSuccessful], Exit 0)"
proof -
  let ?e = "example_env FALSE ''EIO'' ''system\<newline>2,0,2\<newline>'' good_device"
  have "update_verifier ?e = verify_and_mark ?e False"
    by (simp add: update_verifier_def example_env_sel EIO_eio)
  also have "\<dots> = after [CallParseCareMap, CallVerifyPartitions] (mark_successful ?e)"
    by (simp add: verify_and_mark_def example_ParseCareMap example_verify_good)
  also have "\<dots> = ([CallParseCareMap, CallVerifyPartitions, CallMarkBootSuccessful], Exit 0)"
    by (simp add: after_def mark_successful_def example_env_sel)
  finally show ?thesis by (simp add: example_env_sel)
qed

text \<open>
  C8: when the current slot is already marked successful, the care map is not parsed,
  no reboot is requested and the process exits with status 0.
\<close>

theorem already_successful_exits:
  assumes "getService e"
    and "isSlotMarkedSuccessful e (getCurrentSlot e) = TRUE"
  shows "CallParseCareMap \<notin> set (fst (update_verifier e))
         \<and> CallAndroidReboot \<notin> set (fst (update_verifier e))
         \<and> snd (update_verifier e) = Exit 0"
  using assms by (simp add: update_verifier_def)

theorem already_successful_exits_witness:
  "CallParseCareMap \<notin> set (fst (update_verifier
       (example_env TRUE ''enforcing'' ''system\<newline>2,0,2\<newline>'' bad_device)))
   \<and> CallAndroidReboot \<notin> set (fst (update_verifier
       (example_env TRUE ''enforcing'' ''system\<newline>2,0,2\<newline>'' bad_device)))
   \<and> snd (update_verifier
       (example_env TRUE ''enforcing'' ''system\<newline>2,0,2\<newline>'' bad_device)) = Exit 0"
  by (rule already_successful_exits) (simp_all only: example_env_sel)

text \<open>
  C10: when \<open>isSlotMarkedSuccessful\<close> returns anything but \<open>FALSE\<close>, the error result
  \<open>INVALID_SLOT\<close> included, the run makes none of the calls (no parse, no verification,
  no \<open>markBootSuccessful\<close>, no reboot request) and exits with status 0.
\<close>

theorem not_FALSE_exits_quietly:
  assumes "getService e"
    and "isSlotMarkedSuccessful e (getCurrentSlot e) \<noteq> FALSE"
  shows "update_verifier e = ([], Exit 0)
         \<and> CallParseCareMap \<notin> set (fst (update_verifier e))
         \<and> CallVerifyPartitions \<notin> set (fst (update_verifier e))
         \<and> CallMarkBootSuccessful \<notin> set (fst (update_verifier e))
         \<and> CallAndroidReboot \<notin> set (fst (update_verifier e))"
  using assms by (simp add: update_verifier_def)

theorem not_FALSE_exits_quietly_witness:
  "isSlotMarkedSuccessful
      (example_env INVALID_SLOT ''enforcing'' ''system\<newline>2,0,2\<newline>'' bad_device)
      (getCurrentSlot
         (example_env INVALID_SLOT ''enforcing'' ''system\<newline>2,0,2\<newline>'' bad_device))
     = INVALID_SLOT
   \<and> update_verifier
       (example_env INVALID_SLOT ''enforcing'' ''system\<newline>2,0,2\<newline>'' bad_device)
     = ([], Exit 0)"
  using not_FALSE_exits_quietly
    [of "example_env INVALID_SLOT ''enforcing'' ''system\<newline>2,0,2\<newline>'' bad_device"]
  by (simp add: example_env_sel)

section \<open>VerifyPartitions and ReadBlocks\<close>

lemma join_threads_conj: "join_threads threads ret = (ret \<and> list_all (\<lambda>t. t) threads)"
  by (induction threads arbitrary: ret) auto

lemma verify_loop_missing:
  "(partition_name, ranges) \<in> set partition_map \<Longrightarrow>
   map_of dm_block_devices partition_name = None \<Longrightarrow>
   \<not> verify_loop e dm_block_devices partition_map"
  by (induction partition_map) (auto split: option.splits if_splits)

text \<open>
  C4: if a partition of the care map has no entry in the device mapping that
  \<open>FindDmPartitions\<close> discovered, \<open>VerifyPartitions\<close> returns failure.
\<close>

theorem missing_device_fails:
  assumes "(partition_name, ranges) \<in> set partition_map"
    and "map_of (FindDmPartitions e) partition_name = None"
  shows "\<not> VerifyPartitions e partition_map"
  using assms by (simp add: VerifyPartitions_def Let_def verify_loop_missing)

theorem missing_device_fails_witness:
  "map_of (FindDmPartitions
       (example_env FALSE ''enforcing'' ''system\<newline>2,0,2\<newline>'' good_device)) ''vendor'' = None
   \<and> \<not> VerifyPartitions
       (example_env FALSE ''enforcing'' ''system\<newline>2,0,2\<newline>'' good_device)
       [(''system'', [(0, 2)]), (''vendor'', [(0, 2)])]"
proof -
  let ?e = "example_env FALSE ''enforcing'' ''system\<newline>2,0,2\<newline>'' good_device"
  have m: "map_of (FindDmPartitions ?e) ''vendor'' = None"
    by (simp add: example_FindDmPartitions)
  have "(''vendor'', [(0, 2)]) \<in> set [(''system'', [(0, 2)]), (''vendor'', [(0::nat, 2::nat)])]"
    by simp
  then show ?thesis using missing_device_fails [of "''vendor''" _ _ ?e] m by blast
qed

text \<open>
  C5: \<open>ReadBlocks\<close> starts one unit of work for every group that the split returns,
  joins every one of them, and returns true exactly when every group's unit of work
  returned true.
\<close>

theorem ReadBlocks_all_groups:
  "length (launch_threads e dm_block_device (rs_Split e ranges (thread_num e)))
     = length (rs_Split e ranges (thread_num e))
   \<and> (ReadBlocks e partition_name dm_block_device ranges \<longleftrightarrow>
        (\<forall>grp \<in> set (rs_Split e ranges (thread_num e)). thread_func e dm_block_device grp))"
  by (simp add: ReadBlocks_def launch_threads_def join_threads_conj list_all_iff)

theorem ReadBlocks_all_groups_witness:
  "rs_Split (example_env FALSE ''enforcing'' [] good_device) [(0, 2)]
       (thread_num (example_env FALSE ''enforcing'' [] good_device))
     = [ [(0, 2)], [], [], [] ]
   \<and> ReadBlocks (example_env FALSE ''enforcing'' [] good_device)
        ''system'' ''/dev/block/dm-0'' [(0, 2)]"
proof -
  let ?e = "example_env FALSE ''enforcing'' [] good_device"
  have s: "rs_Split ?e [(0, 2)] (thread_num ?e) = [ [(0, 2)], [], [], [] ]"
    by (simp add: example_env_sel example_Split)
  have "\<forall>grp \<in> set (rs_Split ?e [(0, 2)] (thread_num ?e)).
          thread_func ?e ''/dev/block/dm-0'' grp"
    by (simp add: s example_thread_good example_thread_empty)
  then have "ReadBlocks ?e ''system'' ''/dev/block/dm-0'' [(0, 2)]"
    using ReadBlocks_all_groups [of ?e "''/dev/block/dm-0''" "[(0, 2)]" "''system''"]
    by blast
  then show ?thesis using s by simp
qed

section \<open>ParseCareMapPlainText\<close>

lemma plain_text_loop_legacy:
  "2 * i + 1 < length lines \<Longrightarrow>
   StartsWith (lines ! (2 * i)) ''/dev/block/'' \<Longrightarrow>
   (\<forall>j<i. rs_Parse e (lines ! (2 * j + 1)) \<noteq> None) \<Longrightarrow>
   fst (plain_text_loop e lines partition_map) = ParseFailed FoundLegacyCareMap"
proof (induction i arbitrary: lines partition_map)
  case 0
  then obtain n r rest where "lines = n # r # rest"
    by (cases lines; cases "tl lines") auto
  with 0 show ?case by simp
next
  case (Suc i)
  then obtain n r rest where l: "lines = n # r # rest"
    by (cases lines; cases "tl lines") auto
  show ?case
  proof (cases "StartsWith n ''/dev/block/''")
    case True
    then show ?thesis by (simp add: l)
  next
    case False
    from Suc.prems(3) have "rs_Parse e (lines ! (2 * 0 + 1)) \<noteq> None" by blast
    then obtain ranges where p: "rs_Parse e r = Some ranges" by (auto simp add: l)
    have "fst (plain_text_loop e rest (emplace n ranges partition_map))
            = ParseFailed FoundLegacyCareMap"
    proof (rule Suc.IH)
      show "2 * i + 1 < length rest" using Suc.prems(1) by (simp add: l)
      show "StartsWith (rest ! (2 * i)) ''/dev/block/''" using Suc.prems(2) by (simp add: l)
      show "\<forall>j<i. rs_Parse e (rest ! (2 * j + 1)) \<noteq> None"
      proof (intro allI impI)
        fix j assume "j < i"
        then have "Suc j < Suc i" by simp
        with Suc.prems(3) have "rs_Parse e (lines ! (2 * Suc j + 1)) \<noteq> None" by blast
        then show "rs_Parse e (rest ! (2 * j + 1)) \<noteq> None" by (simp add: l)
      qed
    qed
    then show ?thesis using False p by (simp add: l)
  qed
qed

text \<open>
  C3 (as amended): when the trimmed plain-text care map has 2, 4 or 6 lines, some
  partition name begins with \<open>/dev/block/\<close> and the range strings of all the pairs
  before it parse, the parser rejects the care map with the legacy warning, which is
  a different warning from the one for a wrong number of lines and the one for a range
  string that does not parse.
\<close>

theorem legacy_name_rejected_as_legacy:
  assumes "lines = base_Split (Trim content) (CHR 0x0A)"
    and "length lines = 2 \<or> length lines = 4 \<or> length lines = 6"
    and "2 * i < length lines"
    and "StartsWith (lines ! (2 * i)) ''/dev/block/''"
    and "\<forall>j<i. rs_Parse e (lines ! (2 * j + 1)) \<noteq> None"
  shows "fst (ParseCareMapPlainText e content partition_map) = ParseFailed FoundLegacyCareMap"
proof -
  have "2 * i + 1 < length lines" using assms(2,3) by presburger
  then have "fst (plain_text_loop e lines partition_map) = ParseFailed FoundLegacyCareMap"
    using assms(4,5) by (rule plain_text_loop_legacy)
  then show ?thesis using assms(1,2) by (auto simp add: ParseCareMapPlainText_def Let_def)
qed

theorem legacy_name_rejected_as_legacy_witness:
  "base_Split (Trim ''system\<newline>2,0,2\<newline>/dev/block/vendor\<newline>2,0,2\<newline>'') (CHR 0x0A)
     = [''system'', ''2,0,2'', ''/dev/block/vendor'', ''2,0,2'']
   \<and> fst (ParseCareMapPlainText (example_env FALSE ''enforcing'' [] good_device)
          ''system\<newline>2,0,2\<newline>/dev/block/vendor\<newline>2,0,2\<newline>'' [])
     = ParseFailed FoundLegacyCareMap"
proof -
  let ?e = "example_env FALSE ''enforcing'' [] good_device"
  let ?content = "''system\<newline>2,0,2\<newline>/dev/block/vendor\<newline>2,0,2\<newline>''"
  let ?lines = "[''system'', ''2,0,2'', ''/dev/block/vendor'', ''2,0,2'']"
  have l: "?lines = base_Split (Trim ?content) (CHR 0x0A)"
    by code_simp
  have n: "length ?lines = 2 \<or> length ?lines = 4 \<or> length ?lines = 6"
    by simp
  have i: "2 * 1 < length ?lines"
    by simp
  have p: "StartsWith (?lines ! (2 * 1)) ''/dev/block/''"
    by code_simp
  have "rs_Parse ?e (?lines ! (2 * 0 + 1)) \<noteq> None"
    by code_simp
  then have r: "\<forall>j<1. rs_Parse ?e (?lines ! (2 * j + 1)) \<noteq> None"
    by simp
  have "fst (ParseCareMapPlainText ?e ?content []) = ParseFailed FoundLegacyCareMap"
    using l n i p r by (rule legacy_name_rejected_as_legacy)
  then show ?thesis using l by simp
qed

text \<open>
  C3 as stated fails. In the first care map the second partition name begins with
  \<open>/dev/block/\<close>, but the range string of the first pair does not parse and the parser
  stops there with the range warning. In the second one the first name begins with
  \<open>/dev/block/\<close>, but there are three lines and the parser stops at the line count.
\<close>

theorem legacy_name_other_warning_counterexample:
  "StartsWith
     (base_Split (Trim ''system\<newline>bad\<newline>/dev/block/vendor\<newline>2,0,2\<newline>'') (CHR 0x0A) ! 2)
     ''/dev/block/''
   \<and> fst (ParseCareMapPlainText (example_env FALSE ''enforcing'' [] good_device)
          ''system\<newline>bad\<newline>/dev/block/vendor\<newline>2,0,2\<newline>'' [])
     = ParseFailed (ErrorParsingRangeSet ''bad'')
   \<and> StartsWith
     (base_Split (Trim ''/dev/block/system\<newline>2,0,2\<newline>extra\<newline>'') (CHR 0x0A) ! 0)
     ''/dev/block/''
   \<and> fst (ParseCareMapPlainText (example_env FALSE ''enforcing'' [] good_device)
          ''/dev/block/system\<newline>2,0,2\<newline>extra\<newline>'' [])
     = ParseFailed (InvalidLines 3)"
  by code_simp

section \<open>RangeSet::Split\<close>

lemma take_group_append: "take_group needed rs = (g, rest) \<Longrightarrow> g @ rest = rs"
  by (induction rs arbitrary: needed g rest) (auto split: if_splits prod.splits)

lemma split_groups_concat: "0 < k \<Longrightarrow> concat (split_groups k target rs) = rs"
  by (induction k target rs rule: split_groups.induct)
     (auto split: prod.splits dest: take_group_append)

lemma split_groups_length: "length (split_groups k target rs) = k"
  by (induction k target rs rule: split_groups.induct) (auto split: prod.splits)

lemma blocks_of_concat: "blocks_of (concat gs) = concat (map blocks_of gs)"
  by (induction gs) (simp_all add: blocks_of_def)

lemma blocks_of_mem:
  "x \<in> set (blocks_of rs) \<longleftrightarrow> (\<exists>r \<in> set rs. fst r \<le> x \<and> x < snd r)"
  by (auto simp add: blocks_of_def range_blocks_def)

lemma RangeSet_inv_distinct: "RangeSet_inv rs \<Longrightarrow> distinct (blocks_of rs)"
proof (induction rs)
  case Nil
  then show ?case by (simp add: blocks_of_def)
next
  case (Cons a rs)
  then have inv: "RangeSet_inv rs" and later: "\<forall>b \<in> set rs. snd a \<le> fst b"
    by (simp_all add: RangeSet_inv_def)
  have "set (range_blocks a) \<inter> set (blocks_of rs) = {}"
    using later by (fastforce simp add: blocks_of_mem range_blocks_def)
  moreover have "blocks_of (a # rs) = range_blocks a @ blocks_of rs"
    by (simp add: blocks_of_def)
  ultimately show ?case using Cons.IH [OF inv] by (simp add: range_blocks_def)
qed

lemma distinct_concat_nth_disjoint:
  "distinct (concat xss) \<Longrightarrow> i < j \<Longrightarrow> j < length xss \<Longrightarrow>
   set (xss ! i) \<inter> set (xss ! j) = {}"
proof (induction xss arbitrary: i j)
  case Nil
  then show ?case by simp
next
  case (Cons xs xss)
  obtain j' where j: "j = Suc j'" using Cons.prems(2) by (cases j) auto
  show ?case
  proof (cases i)
    case 0
    have "xss ! j' \<in> set xss" using Cons.prems(3) j by simp
    then show ?thesis using Cons.prems(1) 0 j by auto
  next
    case (Suc i')
    then show ?thesis using Cons.IH [of i' j'] Cons.prems j by simp
  qed
qed

text \<open>
  C6: for \<open>groups \<ge> 1\<close> the split returns \<open>groups\<close> groups whose concatenation is the
  original sequence of pairs, so every pair lies whole in one group, in its original
  order; the blocks of the groups together are, as a multiset, the blocks of the
  RangeSet; and for a RangeSet that satisfies its invariant no block occurs twice in
  the groups and no two groups share a block.
\<close>

theorem Split_partitions_the_pairs:
  assumes "1 \<le> groups"
  shows "length (RangeSet_Split rs groups) = groups
     \<and> concat (RangeSet_Split rs groups) = rs
     \<and> mset (concat (map blocks_of (RangeSet_Split rs groups))) = mset (blocks_of rs)
     \<and> (RangeSet_inv rs \<longrightarrow>
          distinct (concat (map blocks_of (RangeSet_Split rs groups)))
          \<and> (\<forall>i j. i < j \<and> j < length (RangeSet_Split rs groups) \<longrightarrow>
                set (blocks_of (RangeSet_Split rs groups ! i))
                  \<inter> set (blocks_of (RangeSet_Split rs groups ! j)) = {}))"
proof -
  let ?gs = "RangeSet_Split rs groups"
  have len: "length ?gs = groups" by (simp add: RangeSet_Split_def split_groups_length)
  have cc: "concat ?gs = rs" using assms by (simp add: RangeSet_Split_def split_groups_concat)
  have bl: "concat (map blocks_of ?gs) = blocks_of rs"
    using cc blocks_of_concat [of ?gs] by simp
  have dj: "\<forall>i j. i < j \<and> j < length ?gs \<longrightarrow>
      set (blocks_of (?gs ! i)) \<inter> set (blocks_of (?gs ! j)) = {}"
    if d: "distinct (concat (map blocks_of ?gs))"
  proof (intro allI impI)
    fix i j assume ij: "i < j \<and> j < length ?gs"
    then have "set (map blocks_of ?gs ! i) \<inter> set (map blocks_of ?gs ! j) = {}"
      using distinct_concat_nth_disjoint [OF d, of i j] by simp
    then show "set (blocks_of (?gs ! i)) \<inter> set (blocks_of (?gs ! j)) = {}"
      using ij by simp
  qed
  show ?thesis using len cc bl dj RangeSet_inv_distinct [of rs] by simp
qed

theorem Split_partitions_the_pairs_witness:
  "RangeSet_inv [(0, 10), (20, 30), (40, 41)]
   \<and> RangeSet_Split [(0, 10), (20, 30), (40, 41)] 2 = [ [(0, 10), (20, 30)], [(40, 41)] ]
   \<and> concat (RangeSet_Split [(0, 10), (20, 30), (40, 41)] 2) = [(0, 10), (20, 30), (40, 41)]
   \<and> distinct (concat (map blocks_of (RangeSet_Split [(0, 10), (20, 30), (40, 41)] 2)))"
proof -
  let ?rs = "[(0, 10), (20, 30), (40, 41)] :: RangeSet"
  have g: "(1::nat) \<le> 2" by simp
  have inv: "RangeSet_inv ?rs" by code_simp
  have sp: "RangeSet_Split ?rs 2 = [ [(0, 10), (20, 30)], [(40, 41)] ]" by code_simp
  show ?thesis using Split_partitions_the_pairs [OF g, of ?rs] inv sp by simp
qed

section \<open>FindDmPartitions\<close>

lemma set_emplace: "x \<in> set (emplace k v m) \<Longrightarrow> x = (k, v) \<or> x \<in> set m"
  by (induction m) (auto split: if_splits)

lemma keys_sorted_emplace: "keys_sorted m \<Longrightarrow> keys_sorted (emplace k v m)"
proof (induction m)
  case Nil
  then show ?case by (simp add: keys_sorted_def)
next
  case (Cons a m)
  obtain k' v' where a: "a = (k', v')" by (cases a)
  have ks: "keys_sorted m" and lt: "\<forall>y \<in> set m. k' < fst y"
    using Cons.prems by (auto simp add: keys_sorted_def a)
  have "\<forall>y \<in> set (emplace k v m). k' < fst y" if "k' < k"
    using that lt by (auto dest: set_emplace)
  then show ?case
    using Cons.IH [OF ks] Cons.prems by (auto simp add: keys_sorted_def a)
qed

lemma map_of_emplace:
  "keys_sorted m \<Longrightarrow>
   map_of (emplace k v m) x = (if x = k \<and> map_of m k = None then Some v else map_of m x)"
proof (induction m arbitrary: x)
  case Nil
  then show ?case by simp
next
  case (Cons a m)
  obtain k' v' where a: "a = (k', v')" by (cases a)
  have ks: "keys_sorted m" and lt: "\<forall>y \<in> set m. k' < fst y"
    using Cons.prems by (auto simp add: keys_sorted_def a)
  show ?case
  proof (cases "k = k'")
    case True
    then show ?thesis by (simp add: a)
  next
    case False
    show ?thesis
    proof (cases "k < k'")
      case True
      have "map_of m k = None"
      proof (rule ccontr)
        assume "map_of m k \<noteq> None"
        then obtain w where "(k, w) \<in> set m" by (auto dest: map_of_SomeD)
        then have "k' < k" using lt by fastforce
        then show False using True by simp
      qed
      then show ?thesis using True False by (simp add: a)
    next
      case nlt: False
      then show ?thesis using False Cons.IH [OF ks] by (simp add: a)
    qed
  qed
qed

lemma dm_loop_sorted: "keys_sorted m \<Longrightarrow> keys_sorted (dm_loop e ds m)"
  by (induction ds arbitrary: m) (auto split: option.splits intro: keys_sorted_emplace)

lemma map_of_dm_loop:
  "keys_sorted m \<Longrightarrow>
   map_of (dm_loop e ds m) k =
     (case map_of m k of
        Some v \<Rightarrow> Some v
      | None \<Rightarrow> map_option (\<lambda>d. DEV_PATH @ d)
                  (List.find (\<lambda>d. dm_entry_name e d = Some k) ds))"
proof (induction ds arbitrary: m)
  case Nil
  then show ?case by (simp split: option.splits)
next
  case (Cons d ds)
  show ?case
  proof (cases "ReadFileToString e (DM_PATH_PREFIX @ d @ DM_PATH_SUFFIX)")
    case None
    then show ?thesis using Cons by (simp add: dm_entry_name_def split: option.splits)
  next
    case (Some content)
    have ks: "keys_sorted (emplace (dm_block_name content) (DEV_PATH @ d) m)"
      using Cons.prems by (rule keys_sorted_emplace)
    show ?thesis
      using Some Cons.IH [OF ks] Cons.prems
      by (auto simp add: dm_entry_name_def map_of_emplace split: option.splits)
  qed
qed

lemma find_greatest:
  "sorted_wrt (\<lambda>a b. b \<le> a) ys \<Longrightarrow> d \<in> set ys \<Longrightarrow> P d \<Longrightarrow>
   (\<forall>y \<in> set ys. P y \<longrightarrow> \<not> d < y) \<Longrightarrow> List.find P ys = Some (d::'a::linorder)"
proof (induction ys)
  case Nil
  then show ?case by simp
next
  case (Cons y ys)
  show ?case
  proof (cases "P y")
    case True
    then have "\<not> d < y" using Cons.prems(4) by simp
    moreover have "d \<le> y" using Cons.prems(1,2) by auto
    ultimately have "y = d" by simp
    then show ?thesis using True by simp
  next
    case False
    then have "d \<in> set ys" using Cons.prems(2,3) by auto
    then show ?thesis using False Cons by simp
  qed
qed

text \<open>
  C9 (as amended): for every entry of \<open>/sys/block\<close> whose name starts with \<open>dm-\<close> and
  whose \<open>dm/name\<close> file can be read, the trimmed content of the file, with \<open>vroot\<close>
  replaced by \<open>system\<close> and every other name unchanged, is a key of the mapping; the key
  is paired with the entry's own \<open>/dev/block/dm-N\<close> path when no entry that sorts after
  it reports the same name.
\<close>

theorem dm_entry_recorded:
  assumes "scandir e DM_PATH_PREFIX = Some entries"
    and "d_name \<in> set entries"
    and "dm_name_filter d_name"
    and "ReadFileToString e (DM_PATH_PREFIX @ d_name @ DM_PATH_SUFFIX) = Some content"
  shows "(if Trim content = ''vroot'' then ''system'' else Trim content)
           \<in> fst ` set (FindDmPartitions e)
     \<and> ((\<forall>d' \<in> set entries. dm_name_filter d' \<and> d_name < d' \<longrightarrow>
            dm_entry_name e d' \<noteq> dm_entry_name e d_name) \<longrightarrow>
         map_of (FindDmPartitions e)
           (if Trim content = ''vroot'' then ''system'' else Trim content)
           = Some (DEV_PATH @ d_name))"
proof -
  let ?key = "if Trim content = ''vroot'' then ''system'' else Trim content"
  let ?namelist = "sort (filter dm_name_filter entries)"
  let ?P = "\<lambda>d. dm_entry_name e d = Some ?key"
  have key: "dm_entry_name e d_name = Some ?key"
    using assms(4) by (simp add: dm_entry_name_def dm_block_name_def)
  have mem: "d_name \<in> set (rev ?namelist)" using assms(2,3) by simp
  then have ne: "?namelist \<noteq> []" by (metis empty_iff empty_set rev_is_Nil_conv)
  have fd: "FindDmPartitions e = dm_loop e (rev ?namelist) []"
    using assms(1) ne by (simp add: FindDmPartitions_def scandir_dm_def)
  have ks: "keys_sorted ([] :: string strmap)" by (simp add: keys_sorted_def)
  have lookup: "map_of (FindDmPartitions e) ?key =
      map_option (\<lambda>d. DEV_PATH @ d) (List.find ?P (rev ?namelist))"
    unfolding fd map_of_dm_loop [OF ks] by simp
  have "List.find ?P (rev ?namelist) \<noteq> None"
    using mem key by (auto simp add: find_None_iff simp del: set_rev)
  then have "map_of (FindDmPartitions e) ?key \<noteq> None" using lookup by simp
  then have part1: "?key \<in> fst ` set (FindDmPartitions e)"
    by (simp only: map_of_eq_None_iff not_not)
  have part2: "map_of (FindDmPartitions e) ?key = Some (DEV_PATH @ d_name)"
    if u: "\<forall>d' \<in> set entries. dm_name_filter d' \<and> d_name < d' \<longrightarrow>
            dm_entry_name e d' \<noteq> dm_entry_name e d_name"
  proof -
    have "sorted_wrt (\<lambda>a b. b \<le> a) (rev ?namelist)"
      by (simp add: sorted_wrt_rev)
    moreover have "\<forall>y \<in> set (rev ?namelist). ?P y \<longrightarrow> \<not> d_name < y"
      using u key by auto
    ultimately have "List.find ?P (rev ?namelist) = Some d_name"
      using mem key by (intro find_greatest) auto
    then show ?thesis using lookup by simp
  qed
  show ?thesis using part1 part2 by blast
qed

theorem dm_entry_recorded_witness:
  "ReadFileToString (example_env FALSE ''enforcing'' [] good_device)
       (DM_PATH_PREFIX @ ''dm-0'' @ DM_PATH_SUFFIX) = Some ''vroot\<newline>''
   \<and> ''system'' \<in> fst ` set (FindDmPartitions (example_env FALSE ''enforcing'' [] good_device))
   \<and> map_of (FindDmPartitions (example_env FALSE ''enforcing'' [] good_device)) ''system''
     = Some (DEV_PATH @ ''dm-0'')"
proof -
  let ?e = "example_env FALSE ''enforcing'' [] good_device"
  have sc: "scandir ?e DM_PATH_PREFIX = Some [''loop0'', ''dm-0'']"
    by (simp add: example_env_def DM_PATH_PREFIX_def)
  have mem: "''dm-0'' \<in> set [''loop0'', ''dm-0'']"
    by simp
  have flt: "dm_name_filter ''dm-0''"
    by code_simp
  have rd: "ReadFileToString ?e (DM_PATH_PREFIX @ ''dm-0'' @ DM_PATH_SUFFIX) = Some ''vroot\<newline>''"
    by code_simp
  have tr: "Trim ''vroot\<newline>'' = ''vroot''"
    by code_simp
  have un: "\<forall>d' \<in> set [''loop0'', ''dm-0'']. dm_name_filter d' \<and> ''dm-0'' < d' \<longrightarrow>
      dm_entry_name ?e d' \<noteq> dm_entry_name ?e ''dm-0''"
    by code_simp
  show ?thesis
    using dm_entry_recorded [OF sc mem flt rd] un rd by (simp add: tr)
qed

text \<open>
  C9 as stated fails: with \<open>dm-0\<close> named \<open>system\<close> and \<open>dm-1\<close> named \<open>vroot\<close> the loop
  visits \<open>dm-1\<close> first and records \<open>system\<close> with \<open>/dev/block/dm-1\<close>; the later \<open>emplace\<close>
  for \<open>dm-0\<close> finds the key present and changes nothing, so the name that \<open>dm-0\<close>
  reports is not paired with \<open>/dev/block/dm-0\<close>.
\<close>

theorem same_name_twice_counterexample:
  "scandir two_dm_env DM_PATH_PREFIX = Some [''dm-0'', ''dm-1'']
   \<and> ReadFileToString two_dm_env (DM_PATH_PREFIX @ ''dm-0'' @ DM_PATH_SUFFIX)
       = Some ''system\<newline>''
   \<and> ReadFileToString two_dm_env (DM_PATH_PREFIX @ ''dm-1'' @ DM_PATH_SUFFIX)
       = Some ''vroot\<newline>''
   \<and> FindDmPartitions two_dm_env = [(''system'', ''/dev/block/dm-1'')]
   \<and> map_of (FindDmPartitions two_dm_env) ''system'' \<noteq> Some ''/dev/block/dm-0''"
  by code_simp

end
